theory Spec2Isabelle
  imports Complex_Main "HOL-Library.AList"
begin

section \<open>The advisory rate limiter (class RateLimiter)\<close>

text \<open>
  The class keeps \<open>self.state\<close>, the object that \<open>json.load\<close> returned or that
  \<open>_initialize_state\<close> built, and never validates it. The state is therefore modelled
  as an untyped Python value, and every subscript, subtraction and comparison of the source
  is a branch that can raise.

  Conventions of the model:
  \<^item> a Python dict is an association list in insertion order; \<open>d[k]\<close> is \<open>map_of\<close>,
    \<open>d[k] = v\<close> is \<open>AList.update\<close> (replace in place, else append);
  \<^item> Python's \<open>int\<close> is \<open>int\<close>; a \<open>float\<close> is an IEEE double: a finite one is
    given by its real value, and the results of float arithmetic are rounded to the
    nearest double, ties to even, or overflow to an infinity; \<open>json.load\<close> also reads
    \<open>NaN\<close> and the infinities;
  \<^item> \<open>time.time()\<close> is a parameter: the reading itself where a method reads the clock
    once, a function from the number of the reading to its value where it reads it
    several times;
  \<^item> the text of \<open>rate_state.json\<close> is represented by what \<open>json.load\<close> makes of it:
    a decode error or a value; \<open>json.dump\<close> writes a text that decodes to the value dumped;
  \<^item> writing \<open>rate_state.json\<close> always succeeds (no full disk, no missing permission);
  \<^item> the lines sent to the \<open>logging\<close> module are kept as structured records;
  \<^item> an exception aborts the call: the result is \<open>Inl\<close> of the exception's class.
\<close>

subsection \<open>Python values and exceptions\<close>

datatype pyfloat = Finite real | PosInf | NegInf | NaN

datatype pyval =
    PNone
  | PBool bool
  | PInt int
  | PFloat pyfloat
  | PStr string
  | PList "pyval list"
  | PDict "(string \<times> pyval) list"

datatype error = KeyError | TypeError | AttributeError | OverflowError | JSONDecodeError

fun bindE :: "error + 'a \<Rightarrow> ('a \<Rightarrow> error + 'b) \<Rightarrow> error + 'b" where
  "bindE (Inl e) f = Inl e"
| "bindE (Inr x) f = f x"

text \<open>\<open>obj[key]\<close> with a \<open>str\<close> key: only a dict accepts it.\<close>

fun getitem :: "pyval \<Rightarrow> string \<Rightarrow> error + pyval" where
  "getitem (PDict d) k = (case map_of d k of None \<Rightarrow> Inl KeyError | Some v \<Rightarrow> Inr v)"
| "getitem PNone k = Inl TypeError"
| "getitem (PBool b) k = Inl TypeError"
| "getitem (PInt i) k = Inl TypeError"
| "getitem (PFloat r) k = Inl TypeError"
| "getitem (PStr s) k = Inl TypeError"
| "getitem (PList l) k = Inl TypeError"

text \<open>\<open>obj[key] = v\<close> with a \<open>str\<close> key.\<close>

fun setitem :: "pyval \<Rightarrow> string \<Rightarrow> pyval \<Rightarrow> error + pyval" where
  "setitem (PDict d) k v = Inr (PDict (AList.update k v d))"
| "setitem PNone k v = Inl TypeError"
| "setitem (PBool b) k v = Inl TypeError"
| "setitem (PInt i) k v = Inl TypeError"
| "setitem (PFloat r) k v = Inl TypeError"
| "setitem (PStr s) k v = Inl TypeError"
| "setitem (PList l) k v = Inl TypeError"

text \<open>\<open>obj.items()\<close>: only a dict has the method.\<close>

fun items :: "pyval \<Rightarrow> error + (string \<times> pyval) list" where
  "items (PDict d) = Inr d"
| "items PNone = Inl AttributeError"
| "items (PBool b) = Inl AttributeError"
| "items (PInt i) = Inl AttributeError"
| "items (PFloat r) = Inl AttributeError"
| "items (PStr s) = Inl AttributeError"
| "items (PList l) = Inl AttributeError"

subsection \<open>Float arithmetic\<close>

text \<open>
  Rounding a real to the nearest double. \<open>round_even\<close> rounds to the nearest integer,
  a tie to the even one. \<open>spacing x\<close> is the distance between neighbouring doubles at
  the magnitude of \<open>x\<close>: 52 binary places below the leading one, and \<open>2 powr - 1074\<close>
  for the subnormal numbers. \<open>round_double\<close> does not bound the exponent from above;
  \<open>rounded\<close> is the result of a float operation whose exact value is \<open>x\<close>, an infinity
  when the rounded value is beyond the largest double.
\<close>

definition round_even :: "real \<Rightarrow> int" where
  "round_even x =
     (let f = \<lfloor>x\<rfloor>; r = x - of_int f
      in if r < 1 / 2 then f else if 1 / 2 < r then f + 1 else if even f then f else f + 1)"

definition spacing :: "real \<Rightarrow> real" where
  "spacing x = 2 powr of_int (max \<lfloor>log 2 \<bar>x\<bar>\<rfloor> (- 1022) - 52)"

definition round_double :: "real \<Rightarrow> real" where
  "round_double x = (if x = 0 then 0 else of_int (round_even (x / spacing x)) * spacing x)"

definition rounded :: "real \<Rightarrow> pyfloat" where
  "rounded x =
     (let d = round_double x
      in if d \<ge> 2 ^ 1024 then PosInf else if d \<le> - (2 ^ 1024) then NegInf else Finite d)"

text \<open>\<open>a - y\<close> and \<open>y + b\<close> on floats, the operands \<open>a\<close> and \<open>b\<close> finite.\<close>

fun fsub :: "real \<Rightarrow> pyfloat \<Rightarrow> pyfloat" where
  "fsub a (Finite b) = rounded (a - b)"
| "fsub a PosInf = NegInf"
| "fsub a NegInf = PosInf"
| "fsub a NaN = NaN"

fun fadd :: "pyfloat \<Rightarrow> real \<Rightarrow> pyfloat" where
  "fadd (Finite a) b = rounded (a + b)"
| "fadd PosInf b = PosInf"
| "fadd NegInf b = NegInf"
| "fadd NaN b = NaN"

text \<open>\<open>y >= c\<close>, a float against an int: Python compares the exact values.\<close>

fun fge :: "pyfloat \<Rightarrow> real \<Rightarrow> bool" where
  "fge (Finite a) c = (a \<ge> c)"
| "fge PosInf c = True"
| "fge NegInf c = False"
| "fge NaN c = False"

text \<open>
  The conversion of an \<open>int\<close> operand of a float operation: rounded to the nearest
  double, \<open>OverflowError\<close> ("int too large to convert to float") beyond the range.
\<close>

definition to_double :: "int \<Rightarrow> error + real" where
  "to_double i =
     (let d = round_double (of_int i)
      in if \<bar>d\<bar> \<ge> 2 ^ 1024 then Inl OverflowError else Inr d)"

text \<open>
  An operand of a float operation: a \<open>float\<close> as it is, an \<open>int\<close> or a \<open>bool\<close> (a
  subclass of \<open>int\<close>) converted, anything else \<open>TypeError\<close>.
\<close>

fun as_float :: "pyval \<Rightarrow> error + pyfloat" where
  "as_float (PFloat y) = Inr y"
| "as_float (PInt i) = bindE (to_double i) (\<lambda>d. Inr (Finite d))"
| "as_float (PBool b) = Inr (Finite (of_bool b))"
| "as_float PNone = Inl TypeError"
| "as_float (PStr s) = Inl TypeError"
| "as_float (PList l) = Inl TypeError"
| "as_float (PDict d) = Inl TypeError"

text \<open>\<open>current_time - x\<close>, the left operand a float.\<close>

definition sub_from_float :: "real \<Rightarrow> pyval \<Rightarrow> error + pyfloat" where
  "sub_from_float t x = bindE (as_float x) (\<lambda>y. Inr (fsub t y))"

text \<open>\<open>limits['rpm'] - x\<close>, the left operand an int.\<close>

fun sub_from_int :: "int \<Rightarrow> pyval \<Rightarrow> error + pyval" where
  "sub_from_int a (PInt i) = Inr (PInt (a - i))"
| "sub_from_int a (PBool b) = Inr (PInt (a - of_bool b))"
| "sub_from_int a (PFloat y) = bindE (to_double a) (\<lambda>d. Inr (PFloat (fsub d y)))"
| "sub_from_int a PNone = Inl TypeError"
| "sub_from_int a (PStr s) = Inl TypeError"
| "sub_from_int a (PList l) = Inl TypeError"
| "sub_from_int a (PDict d) = Inl TypeError"

text \<open>\<open>x >= limits['rpm']\<close>, the right operand an int.\<close>

fun ge_int :: "pyval \<Rightarrow> int \<Rightarrow> error + bool" where
  "ge_int (PInt i) a = Inr (i \<ge> a)"
| "ge_int (PBool b) a = Inr (of_bool b \<ge> a)"
| "ge_int (PFloat y) a = Inr (fge y (of_int a))"
| "ge_int PNone a = Inl TypeError"
| "ge_int (PStr s) a = Inl TypeError"
| "ge_int (PList l) a = Inl TypeError"
| "ge_int (PDict d) a = Inl TypeError"

text \<open>\<open>x + 1\<close>, as \<open>x += 1\<close> computes it.\<close>

fun add_one :: "pyval \<Rightarrow> error + pyval" where
  "add_one (PInt i) = Inr (PInt (i + 1))"
| "add_one (PBool b) = Inr (PInt (of_bool b + 1))"
| "add_one (PFloat y) = Inr (PFloat (fadd y 1))"
| "add_one PNone = Inl TypeError"
| "add_one (PStr s) = Inl TypeError"
| "add_one (PList l) = Inl TypeError"
| "add_one (PDict d) = Inl TypeError"

subsection \<open>Configuration, persisted store, log\<close>

record limits =
  rpm :: int
  daily :: int

type_synonym config = "(string \<times> limits) list"

definition MODELS :: config where
  "MODELS =
    [(''gemini-1.5-flash'', \<lparr>rpm = 15, daily = 1500\<rparr>),
     (''gemini-1.5-flash-8b'', \<lparr>rpm = 15, daily = 1500\<rparr>),
     (''gemini-1.5-pro'', \<lparr>rpm = 2, daily = 50\<rparr>),
     (''gemini-2.0-flash'', \<lparr>rpm = 10, daily = 1500\<rparr>),
     (''gemini-2.0-flash-thinking'', \<lparr>rpm = 10, daily = 1500\<rparr>)]"

text \<open>The content of \<open>rate_state.json\<close> when the file exists, as \<open>json.load\<close> sees it.\<close>

datatype stored = Unparseable | Parsed pyval

text \<open>
  The three messages of the class: \<open>logging.error("Unknown model: ...")\<close>, the
  rate limit advisory with the two remaining values it prints, and the
  "Request logged" line with the two remaining values it prints.
\<close>

datatype log_record =
    Unknown_model string
  | Advisory string pyval pyval
  | Request_logged string pyval pyval

record limiter =
  state :: pyval
  state_file :: "stored option"
  log_file :: "log_record list"

subsection \<open>Construction and persistence\<close>

text \<open>
  \<open>_initialize_state\<close>: one entry per key of \<open>MODELS\<close>, in order; each entry reads the
  clock twice, \<open>clock k\<close> being the reading number \<open>k\<close> of the call.
\<close>

fun initialize_entries :: "(nat \<Rightarrow> real) \<Rightarrow> nat \<Rightarrow> string list \<Rightarrow> (string \<times> pyval) list" where
  "initialize_entries clock k [] = []"
| "initialize_entries clock k (model # rest) =
     (model, PDict [(''minute_start'', PFloat (Finite (clock k))),
                    (''day_start'', PFloat (Finite (clock (k + 1)))),
                    (''minute_requests'', PInt 0),
                    (''daily_requests'', PInt 0)])
     # initialize_entries clock (k + 2) rest"

definition initialize_state :: "config \<Rightarrow> (nat \<Rightarrow> real) \<Rightarrow> pyval" where
  "initialize_state cfg clock = PDict (initialize_entries clock 0 (map fst cfg))"

definition save_state :: "limiter \<Rightarrow> limiter" where
  "save_state L = L\<lparr>state_file := Some (Parsed (state L))\<rparr>"

text \<open>
  \<open>load_state\<close>, called by \<open>__init__\<close> on the new object: the argument is the store as
  the constructor finds it (\<open>None\<close>: no file).
\<close>

definition load_state :: "config \<Rightarrow> (nat \<Rightarrow> real) \<Rightarrow> stored option \<Rightarrow> error + limiter" where
  "load_state cfg clock file =
     (case file of
        Some content \<Rightarrow>
          (case content of
             Unparseable \<Rightarrow> Inl JSONDecodeError
           | Parsed v \<Rightarrow> Inr \<lparr>state = v, state_file = file, log_file = []\<rparr>)
      | None \<Rightarrow>
          Inr (save_state \<lparr>state = initialize_state cfg clock, state_file = None, log_file = []\<rparr>))"

text \<open>\<open>__init__\<close>: \<open>setup_logging\<close> only configures the logging module, then \<open>load_state\<close>.\<close>

definition RateLimiter_init :: "config \<Rightarrow> (nat \<Rightarrow> real) \<Rightarrow> stored option \<Rightarrow> error + limiter" where
  "RateLimiter_init cfg clock file = load_state cfg clock file"

text \<open>A clock that does not advance during a call.\<close>

definition steady :: "real \<Rightarrow> nat \<Rightarrow> real" where
  "steady t k = t"

subsection \<open>\<open>log_request\<close>\<close>

text \<open>
  One of the two window tests of \<open>log_request\<close> (lines 86-88 and 90-92), which differ in
  the two keys and the period only.
\<close>

definition rollover :: "string \<Rightarrow> string \<Rightarrow> real \<Rightarrow> real \<Rightarrow> pyval \<Rightarrow> error + pyval" where
  "rollover start_key count_key period current_time model_state =
     bindE (getitem model_state start_key) (\<lambda>start.
     bindE (sub_from_float current_time start) (\<lambda>elapsed.
       if fge elapsed period then
         bindE (setitem model_state start_key (PFloat (Finite current_time))) (\<lambda>ms.
         setitem ms count_key (PInt 0))
       else Inr model_state))"

definition rollover_steps :: "real \<Rightarrow> pyval \<Rightarrow> error + pyval" where
  "rollover_steps current_time model_state =
     bindE (rollover ''minute_start'' ''minute_requests'' 60 current_time model_state)
       (rollover ''day_start'' ''daily_requests'' 86400 current_time)"

text \<open>
  Lines 94-100: the test (\<open>or\<close> does not evaluate its right operand when the left one is
  true) and the warning, whose two values are computed left to right.
\<close>

definition advisory :: "string \<Rightarrow> limits \<Rightarrow> pyval \<Rightarrow> error + log_record list" where
  "advisory model limits model_state =
     bindE (getitem model_state ''minute_requests'') (\<lambda>mr.
     bindE (ge_int mr (rpm limits)) (\<lambda>over_minute.
     bindE (if over_minute then Inr True
            else bindE (getitem model_state ''daily_requests'') (\<lambda>dr. ge_int dr (daily limits)))
       (\<lambda>over.
     if over then
       bindE (getitem model_state ''minute_requests'') (\<lambda>mr.
       bindE (sub_from_int (rpm limits) mr) (\<lambda>left_minute.
       bindE (getitem model_state ''daily_requests'') (\<lambda>dr.
       bindE (sub_from_int (daily limits) dr) (\<lambda>left_daily.
       Inr [Advisory model left_minute left_daily]))))
     else Inr [])))"

text \<open>\<open>model_state[key] += 1\<close>.\<close>

definition increment :: "string \<Rightarrow> pyval \<Rightarrow> error + pyval" where
  "increment key model_state =
     bindE (getitem model_state key) (\<lambda>c.
     bindE (add_one c) (\<lambda>c'.
     setitem model_state key c'))"

text \<open>
  \<open>model_state\<close> is the object stored in \<open>self.state[model]\<close>, changed in place; the
  model writes the final object back under the key, which is the same thing seen from
  \<open>self.state\<close>. The result is the value returned and the limiter after the call.
\<close>

definition log_request :: "config \<Rightarrow> real \<Rightarrow> string \<Rightarrow> limiter \<Rightarrow> error + (bool \<times> limiter)" where
  "log_request cfg current_time model L =
     (case map_of cfg model of
        None \<Rightarrow> Inr (True, L\<lparr>log_file := log_file L @ [Unknown_model model]\<rparr>)
      | Some limits \<Rightarrow>
          bindE (getitem (state L) model) (\<lambda>model_state.
          bindE (rollover_steps current_time model_state) (\<lambda>ms2.
          bindE (advisory model limits ms2) (\<lambda>warning.
          bindE (increment ''minute_requests'' ms2) (\<lambda>ms3.
          bindE (increment ''daily_requests'' ms3) (\<lambda>ms4.
          bindE (getitem ms4 ''minute_requests'') (\<lambda>mr.
          bindE (sub_from_int (rpm limits) mr) (\<lambda>remaining_minute.
          bindE (getitem ms4 ''daily_requests'') (\<lambda>dr.
          bindE (sub_from_int (daily limits) dr) (\<lambda>remaining_daily.
          bindE (setitem (state L) model ms4) (\<lambda>st.
          Inr (True,
               save_state (L\<lparr>state := st,
                              log_file := log_file L @ warning
                                @ [Request_logged model remaining_minute remaining_daily]\<rparr>))
          )))))))))))"

subsection \<open>\<open>get_limits\<close>\<close>

text \<open>The body of the loop of \<open>get_limits\<close> for one item, \<open>limits\<close> already looked up.\<close>

definition status_entry :: "limits \<Rightarrow> real \<Rightarrow> pyval \<Rightarrow> error + pyval" where
  "status_entry limits current_time st =
     bindE (getitem st ''minute_requests'') (\<lambda>mr.
     bindE (sub_from_int (rpm limits) mr) (\<lambda>remaining_minute.
     bindE (getitem st ''daily_requests'') (\<lambda>dr.
     bindE (sub_from_int (daily limits) dr) (\<lambda>remaining_daily.
     bindE (getitem st ''minute_start'') (\<lambda>ms.
     bindE (sub_from_float current_time ms) (\<lambda>minute_elapsed.
     bindE (getitem st ''day_start'') (\<lambda>ds.
     bindE (sub_from_float current_time ds) (\<lambda>day_elapsed.
     Inr (PDict
       [(''remaining_minute'',
           if fge minute_elapsed 60 then PInt (rpm limits) else remaining_minute),
        (''remaining_daily'',
           if fge day_elapsed 86400 then PInt (daily limits) else remaining_daily)])))))))))"

fun limits_loop ::
  "config \<Rightarrow> real \<Rightarrow> (string \<times> pyval) list \<Rightarrow> (string \<times> pyval) list
     \<Rightarrow> error + (string \<times> pyval) list" where
  "limits_loop cfg current_time [] status = Inr status"
| "limits_loop cfg current_time ((model, st) # rest) status =
     (case map_of cfg model of
        None \<Rightarrow> Inl KeyError
      | Some limits \<Rightarrow>
          (case status_entry limits current_time st of
             Inl e \<Rightarrow> Inl e
           | Inr entry \<Rightarrow>
               limits_loop cfg current_time rest (AList.update model entry status)))"

text \<open>The result is the status mapping and the limiter after the call.\<close>

definition get_limits :: "config \<Rightarrow> real \<Rightarrow> limiter \<Rightarrow> error + (pyval \<times> limiter)" where
  "get_limits cfg current_time L =
     bindE (items (state L)) (\<lambda>its.
     bindE (limits_loop cfg current_time its []) (\<lambda>status.
     Inr (PDict status, L)))"

subsection \<open>Sequences of calls\<close>

text \<open>
  What a caller does with a limiter: \<open>log_request\<close> for a model name or \<open>get_limits\<close>,
  each at the time the clock shows during the call. A sequence of calls stops at the
  first exception.
\<close>

datatype call = Log_request real string | Get_limits real

fun calls :: "config \<Rightarrow> call list \<Rightarrow> limiter \<Rightarrow> error + limiter" where
  "calls cfg [] L = Inr L"
| "calls cfg (Log_request t model # cs) L =
     (case log_request cfg t model L of
        Inl e \<Rightarrow> Inl e
      | Inr (ack, L') \<Rightarrow> calls cfg cs L')"
| "calls cfg (Get_limits t # cs) L =
     (case get_limits cfg t L of
        Inl e \<Rightarrow> Inl e
      | Inr (status, L') \<Rightarrow> calls cfg cs L')"

subsection \<open>The tracker state of the data model, read off the Python value\<close>

text \<open>
  A window state of the data model: two timestamps and two integer counts. A timestamp
  is what the float subtraction of the code makes of the stored value: the float itself,
  or the double an int or bool converts to; an int beyond the range of the doubles is
  no timestamp. \<open>window_of\<close> reads a window state off the dict stored for a model, when
  the dict has the four keys with two timestamps and two ints; \<open>tracked\<close> reads the
  window state a tracker state holds for a name.
\<close>

record window =
  minute_start :: pyfloat
  day_start :: pyfloat
  minute_requests :: int
  daily_requests :: int

definition start_val :: "pyval \<Rightarrow> pyfloat option" where
  "start_val v = (case as_float v of Inl e \<Rightarrow> None | Inr y \<Rightarrow> Some y)"

fun int_val :: "pyval \<Rightarrow> int option" where
  "int_val (PInt i) = Some i"
| "int_val PNone = None"
| "int_val (PBool b) = None"
| "int_val (PFloat r) = None"
| "int_val (PStr s) = None"
| "int_val (PList l) = None"
| "int_val (PDict d) = None"

fun window_of :: "pyval \<Rightarrow> window option" where
  "window_of (PDict d) =
     Option.bind (Option.bind (map_of d ''minute_start'') start_val) (\<lambda>a.
     Option.bind (Option.bind (map_of d ''day_start'') start_val) (\<lambda>b.
     Option.bind (Option.bind (map_of d ''minute_requests'') int_val) (\<lambda>c.
     Option.bind (Option.bind (map_of d ''daily_requests'') int_val) (\<lambda>e.
     Some \<lparr>minute_start = a, day_start = b, minute_requests = c, daily_requests = e\<rparr>))))"
| "window_of PNone = None"
| "window_of (PBool b) = None"
| "window_of (PInt i) = None"
| "window_of (PFloat r) = None"
| "window_of (PStr s) = None"
| "window_of (PList l) = None"

fun tracked :: "pyval \<Rightarrow> string \<Rightarrow> window option" where
  "tracked (PDict st) model = Option.bind (map_of st model) window_of"
| "tracked PNone model = None"
| "tracked (PBool b) model = None"
| "tracked (PInt i) model = None"
| "tracked (PFloat r) model = None"
| "tracked (PStr s) model = None"
| "tracked (PList l) model = None"

text \<open>The names a tracker state has entries for, in order.\<close>

fun names :: "pyval \<Rightarrow> string list" where
  "names (PDict st) = map fst st"
| "names PNone = []"
| "names (PBool b) = []"
| "names (PInt i) = []"
| "names (PFloat r) = []"
| "names (PStr s) = []"
| "names (PList l) = []"

text \<open>
  The test of both operations, \<open>current_time - start >= period\<close>: the difference is the
  double that the float subtraction gives.
\<close>

definition elapsed_ge :: "real \<Rightarrow> pyfloat \<Rightarrow> real \<Rightarrow> bool" where
  "elapsed_ge now start period = fge (fsub now start) period"

text \<open>
  The rollover rule of the specification (steps 2 and 3 of \<open>recordRequest\<close>) on a window
  state, to compare \<open>log_request\<close> and \<open>get_limits\<close> with.
\<close>

definition rolled :: "real \<Rightarrow> window \<Rightarrow> window" where
  "rolled now w =
     \<lparr>minute_start = (if elapsed_ge now (minute_start w) 60 then Finite now else minute_start w),
      day_start = (if elapsed_ge now (day_start w) 86400 then Finite now else day_start w),
      minute_requests = (if elapsed_ge now (minute_start w) 60 then 0 else minute_requests w),
      daily_requests = (if elapsed_ge now (day_start w) 86400 then 0 else daily_requests w)\<rparr>"

text \<open>A window state after one recorded request (step 5 of \<open>recordRequest\<close>).\<close>

definition counted :: "window \<Rightarrow> window" where
  "counted w = w\<lparr>minute_requests := minute_requests w + 1,
                  daily_requests := daily_requests w + 1\<rparr>"

text \<open>
  What \<open>log_request\<close> sends to the log for a window state already rolled over: the
  advisory, when a count has reached its cap, with the remaining values before the
  increment, then the "Request logged" line with the remaining values after it.
\<close>

definition messages :: "string \<Rightarrow> limits \<Rightarrow> window \<Rightarrow> log_record list" where
  "messages model limits w =
     (if minute_requests w \<ge> rpm limits \<or> daily_requests w \<ge> daily limits
      then [Advisory model (PInt (rpm limits - minute_requests w))
              (PInt (daily limits - daily_requests w))]
      else [])
     @ [Request_logged model (PInt (rpm limits - (minute_requests w + 1)))
          (PInt (daily limits - (daily_requests w + 1)))]"

text \<open>The status entry that reports a window state: each limit minus the count.\<close>

definition remaining :: "limits \<Rightarrow> window \<Rightarrow> pyval" where
  "remaining limits w =
     PDict [(''remaining_minute'', PInt (rpm limits - minute_requests w)),
            (''remaining_daily'', PInt (daily limits - daily_requests w))]"

text \<open>
  The status entry as the specification words it: run the rollover steps of
  \<open>log_request\<close> on the stored object, then subtract the counts of the result from
  the limits.
\<close>

definition remaining_after_rollover :: "limits \<Rightarrow> real \<Rightarrow> pyval \<Rightarrow> error + pyval" where
  "remaining_after_rollover limits now model_state =
     bindE (rollover_steps now model_state) (\<lambda>ms.
     bindE (getitem ms ''minute_requests'') (\<lambda>mr.
     bindE (sub_from_int (rpm limits) mr) (\<lambda>remaining_minute.
     bindE (getitem ms ''daily_requests'') (\<lambda>dr.
     bindE (sub_from_int (daily limits) dr) (\<lambda>remaining_daily.
     Inr (PDict [(''remaining_minute'', remaining_minute),
                 (''remaining_daily'', remaining_daily)]))))))"

text \<open>
  A tracker state of the data model for a configuration: a dict whose keys are exactly
  the configured names, each mapped to a window state.
\<close>

fun tracker_state :: "config \<Rightarrow> pyval \<Rightarrow> bool" where
  "tracker_state cfg (PDict st) =
     (distinct (map fst st) \<and> set (map fst st) = set (map fst cfg)
      \<and> list_all (\<lambda>(model, ms). window_of ms \<noteq> None) st)"
| "tracker_state cfg PNone = False"
| "tracker_state cfg (PBool b) = False"
| "tracker_state cfg (PInt i) = False"
| "tracker_state cfg (PFloat r) = False"
| "tracker_state cfg (PStr s) = False"
| "tracker_state cfg (PList l) = False"


text \<open>The status mapping alone: what the caller of \<open>get_limits\<close> sees, or the exception.\<close>

definition status_of :: "error + (pyval \<times> limiter) \<Rightarrow> error + pyval" where
  "status_of r = map_sum id fst r"

subsection \<open>A small configuration and limiter, to evaluate the operations on\<close>

definition example_config :: config where
  "example_config = [(''gemini-1.5-pro'', \<lparr>rpm = 2, daily = 50\<rparr>)]"

definition example_limiter :: limiter where
  "example_limiter =
     \<lparr>state = PDict [(''gemini-1.5-pro'',
                       PDict [(''minute_start'', PFloat (Finite 100)), (''day_start'', PFloat (Finite 40)),
                              (''minute_requests'', PInt 2), (''daily_requests'', PInt 7)])],
      state_file = None,
      log_file = []\<rparr>"


text \<open>
  Two requests for a configured name, the second after the minute window has run out,
  with a status query and a request for an unknown name between them.
\<close>

definition example_calls :: "call list" where
  "example_calls =
     [Log_request 10 ''gemini-1.5-pro'', Get_limits 20, Log_request 30 ''gpt-4'',
      Log_request 70 ''gemini-1.5-pro'']"


text \<open>
  Two limiters with a stored minute start that no clock reading gives: an int beyond the
  range of the doubles, and the double \<open>2 powr - 60\<close>.
\<close>

definition huge :: int where
  "huge = 10 ^ 400"

definition tiny :: real where
  "tiny = 1 / 2 ^ 60"

definition huge_start_limiter :: limiter where
  "huge_start_limiter =
     \<lparr>state = PDict [(''gemini-1.5-pro'',
                       PDict [(''minute_start'', PInt huge), (''day_start'', PFloat (Finite 40)),
                              (''minute_requests'', PInt 2), (''daily_requests'', PInt 7)])],
      state_file = None,
      log_file = []\<rparr>"

definition tiny_start_limiter :: limiter where
  "tiny_start_limiter =
     \<lparr>state = PDict [(''gemini-1.5-pro'',
                       PDict [(''minute_start'', PFloat (Finite tiny)), (''day_start'', PFloat (Finite 0)),
                              (''minute_requests'', PInt 2), (''daily_requests'', PInt 7)])],
      state_file = None,
      log_file = []\<rparr>"

section \<open>Properties\<close>

subsection \<open>Doubles that are integers\<close>

lemma round_even_of_int [simp]: "round_even (of_int n) = n"
  by (simp add: round_even_def)

lemma round_double_of_int:
  assumes "\<bar>i\<bar> < 2 ^ 53"
  shows "round_double (of_int i) = of_int i"
proof (cases "i = 0")
  case True
  then show ?thesis by (simp add: round_double_def)
next
  case False
  let ?x = "of_int i :: real"
  define e where "e = \<lfloor>log 2 \<bar>?x\<bar>\<rfloor>"
  from False have "1 \<le> \<bar>i\<bar>" by linarith
  then have "(1::real) \<le> of_int \<bar>i\<bar>" by linarith
  then have one: "1 \<le> \<bar>?x\<bar>" by simp
  from assms have "(of_int \<bar>i\<bar> :: real) < 2 ^ 53"
    by (simp only: of_int_less_numeral_power_cancel_iff)
  then have lt: "\<bar>?x\<bar> < 2 ^ 53" by simp
  have "0 \<le> log 2 \<bar>?x\<bar>" using one by simp
  then have e0: "0 \<le> e" by (simp add: e_def)
  have "log 2 \<bar>?x\<bar> < 53"
    using one lt by (simp add: log_less_iff powr_realpow [symmetric])
  then have e52: "e \<le> 52" by (simp add: e_def floor_le_iff)
  define n where "n = nat (52 - e)"
  have sp: "spacing ?x = 1 / 2 ^ n"
  proof -
    have "max e (- 1022) - 52 = - int n" using e0 e52 by (simp add: n_def)
    then have "spacing ?x = 2 powr of_int (- int n)"
      by (simp add: spacing_def e_def)
    also have "\<dots> = 2 powr (- real n)" by simp
    also have "\<dots> = 1 / 2 powr real n" by (simp only: powr_minus_divide)
    also have "\<dots> = 1 / 2 ^ n" by (simp add: powr_realpow)
    finally show ?thesis .
  qed
  have "?x / spacing ?x = of_int (i * 2 ^ n)"
    by (simp add: sp)
  then have "round_even (?x / spacing ?x) = i * 2 ^ n"
    by (simp only: round_even_of_int)
  then have "round_double ?x = of_int (i * 2 ^ n) * (1 / 2 ^ n)"
    using False by (simp add: round_double_def sp)
  then show ?thesis by simp
qed

lemma rounded_of_int:
  assumes "\<bar>i\<bar> < 2 ^ 53"
  shows "rounded (of_int i) = Finite (of_int i)"
proof -
  have "(2::real) ^ 53 < 2 ^ 1024" by (rule power_strict_increasing) simp_all
  moreover from assms have "(of_int \<bar>i\<bar> :: real) < 2 ^ 53"
    by (simp only: of_int_less_numeral_power_cancel_iff)
  then have "\<bar>of_int i :: real\<bar> < 2 ^ 53" by simp
  ultimately have "\<bar>of_int i :: real\<bar> < 2 ^ 1024" by linarith
  then show ?thesis
    by (simp add: rounded_def round_double_of_int [OF assms] abs_less_iff not_le Let_def)
qed

lemma rounded_numeral [simp]:
  "numeral k < (2::int) ^ 53 \<Longrightarrow> rounded (numeral k) = Finite (numeral k)"
  using rounded_of_int [of "numeral k"] by simp

lemma rounded_0 [simp]: "rounded 0 = Finite 0"
  using rounded_of_int [of 0] by simp

lemma elapsed_ge_Finite [simp]:
  "elapsed_ge now (Finite s) period = fge (rounded (now - s)) period"
  by (simp add: elapsed_ge_def)

subsection \<open>Where the range and the rounding of doubles show\<close>

text \<open>
  An int beyond the range of the doubles cannot be subtracted from a float: the
  conversion raises.
\<close>

lemma round_even_ge_floor: "\<lfloor>y\<rfloor> \<le> round_even y"
  by (simp add: round_even_def Let_def)

lemma round_double_beyond:
  assumes "2 ^ 1024 \<le> x"
  shows "2 ^ 1024 \<le> round_double x"
proof -
  define e where "e = \<lfloor>log 2 x\<rfloor>"
  have p1024: "(2::real) powr 1024 = 2 ^ 1024"
    by (rule powr_numeral) simp
  have "(0::real) < 2 ^ 1024" by (rule zero_less_power) simp
  with assms have pos: "0 < x" by linarith
  from assms have "(2::real) powr 1024 \<le> x" by (simp only: p1024)
  then have "(1024::real) \<le> log 2 x"
    using pos by (subst le_log_iff) simp_all
  then have e1024: "1024 \<le> e" by (simp add: e_def le_floor_iff)
  have "of_int e \<le> log 2 x" by (simp add: e_def)
  then have le: "2 powr of_int e \<le> x"
    using pos by (simp add: le_log_iff)
  have sp: "spacing x = 2 powr (of_int e - 52)"
    using e1024 pos by (simp add: spacing_def e_def max_def)
  have sp_pos: "0 < spacing x" by (simp add: sp)
  have "2 powr of_int e / spacing x = 2 powr 52"
    by (simp add: sp powr_diff)
  moreover have "2 powr of_int e / spacing x \<le> x / spacing x"
    using le sp_pos by (simp add: divide_right_mono)
  moreover have p52: "(2::real) powr 52 = 2 ^ 52"
    by (rule powr_numeral) simp
  ultimately have "(2::real) ^ 52 \<le> x / spacing x"
    by (simp only:)
  then have "(2::int) ^ 52 \<le> \<lfloor>x / spacing x\<rfloor>"
    by (simp add: le_floor_iff)
  with round_even_ge_floor [of "x / spacing x"] have "(2::int) ^ 52 \<le> round_even (x / spacing x)"
    by linarith
  then have "(2::real) ^ 52 \<le> of_int (round_even (x / spacing x))"
    by (metis of_int_le_iff of_int_numeral of_int_power)
  then have "2 ^ 52 * spacing x \<le> of_int (round_even (x / spacing x)) * spacing x"
    using sp_pos by (simp add: mult_right_mono)
  moreover have "2 ^ 52 * spacing x = 2 powr of_int e"
  proof -
    have "2 powr 52 * 2 powr (of_int e - 52) = (2::real) powr of_int e"
      by (simp only: powr_add [symmetric]) simp
    then show ?thesis by (simp only: sp p52)
  qed
  moreover have "(2::real) ^ 1024 \<le> 2 powr of_int e"
  proof -
    have "(2::real) powr 1024 \<le> 2 powr of_int e"
      by (rule powr_mono) (use e1024 in simp_all)
    then show ?thesis by (simp only: p1024)
  qed
  ultimately have "2 ^ 1024 \<le> of_int (round_even (x / spacing x)) * spacing x"
    by linarith
  then show ?thesis using pos by (simp add: round_double_def)
qed

lemma to_double_beyond:
  assumes "2 ^ 1024 \<le> i"
  shows "to_double i = Inl OverflowError"
proof -
  from assms have "(2::real) ^ 1024 \<le> of_int i"
    by (metis of_int_le_iff of_int_numeral of_int_power)
  from round_double_beyond [OF this] have "2 ^ 1024 \<le> \<bar>round_double (of_int i)\<bar>"
    by linarith
  then show ?thesis by (simp add: to_double_def Let_def)
qed

lemma int_start_beyond_doubles:
  "sub_from_float t (PInt huge) = Inl OverflowError"
proof -
  have "(2::int) ^ 1024 \<le> huge" by (simp add: huge_def)
  then show ?thesis by (simp add: sub_from_float_def to_double_beyond)
qed

lemma huge_is_no_timestamp: "start_val (PInt huge) = None"
proof -
  have "(2::int) ^ 1024 \<le> huge" by (simp add: huge_def)
  then show ?thesis by (simp add: start_val_def to_double_beyond)
qed

text \<open>
  A start of \<open>2 powr - 60\<close> seconds read at time 60: the exact difference is below 60,
  the double nearest to it is 60, so the window has run out for the code.
\<close>

lemma round_double_below_60: "round_double (60 - tiny) = 60"
proof -
  define x :: real where "x = 60 - tiny"
  have lo: "32 \<le> x" and hi: "x < 64" and nz: "x \<noteq> 0"
    by (simp_all add: x_def tiny_def)
  have "\<lfloor>log 2 x\<rfloor> = 5"
  proof (rule floor_unique)
    have "2 powr 5 \<le> x" using lo by simp
    then show "of_int 5 \<le> log 2 x"
      using lo by (subst le_log_iff) simp_all
    have "x < 2 powr 6" using hi by simp
    then have "log 2 x < 6"
      using lo by (subst log_less_iff) simp_all
    then show "log 2 x < of_int 5 + 1" by simp
  qed
  moreover have "\<bar>x\<bar> = x" using lo by simp
  ultimately have "spacing x = 2 powr (- 47)"
    by (simp add: spacing_def)
  also have "\<dots> = 1 / 2 ^ 47"
    by (simp add: powr_minus_divide)
  finally have sp: "spacing x = 1 / 2 ^ 47" .
  define y where "y = x / spacing x"
  have y: "y = of_int (60 * 2 ^ 47 - 1) + (1 - 1 / 2 ^ 13)"
    by (simp only: y_def sp) (simp add: x_def tiny_def)
  have fl: "\<lfloor>y\<rfloor> = 60 * 2 ^ 47 - 1"
    unfolding y by (rule floor_unique) simp_all
  have "y - of_int \<lfloor>y\<rfloor> = 1 - 1 / 2 ^ 13"
    unfolding fl by (simp add: y)
  then have "round_even y = 60 * 2 ^ 47"
    by (simp add: round_even_def Let_def fl)
  then have "round_even (x / spacing x) = 60 * 2 ^ 47"
    by (simp only: y_def)
  then have "of_int (round_even (x / spacing x)) * spacing x
      = (of_int (60 * 2 ^ 47) :: real) * (1 / 2 ^ 47)"
    by (simp only: sp)
  then have "round_double x = of_int (60 * 2 ^ 47) * (1 / 2 ^ 47)"
    using nz by (simp only: round_double_def if_False)
  then have "round_double x = 60" by simp
  then show ?thesis by (simp only: x_def)
qed

lemma elapsed_rounds_up: "elapsed_ge 60 (Finite tiny) 60"
proof -
  have "rounded (60 - tiny) = Finite 60"
    unfolding rounded_def round_double_below_60 Let_def by simp
  then show ?thesis
    unfolding elapsed_ge_Finite by simp
qed

lemma rounded_60_tiny: "rounded (60 - tiny) = Finite 60"
  unfolding rounded_def round_double_below_60 Let_def by simp

subsection \<open>The steps of \<open>log_request\<close> and \<open>get_limits\<close> on a window state\<close>

lemma int_val_Some [simp]: "int_val v = Some i \<longleftrightarrow> v = PInt i"
  by (cases v) auto

lemma start_val_Some: "start_val v = Some y \<longleftrightarrow> as_float v = Inr y"
  by (cases "as_float v") (auto simp: start_val_def)

lemma start_val_PFloat [simp]: "start_val (PFloat y) = Some y"
  by (simp add: start_val_def)

lemma window_of_SomeD:
  assumes "window_of v = Some w"
  shows "\<exists>d a b. v = PDict d
     \<and> map_of d ''minute_start'' = Some a \<and> start_val a = Some (minute_start w)
     \<and> as_float a = Inr (minute_start w)
     \<and> map_of d ''day_start'' = Some b \<and> start_val b = Some (day_start w)
     \<and> as_float b = Inr (day_start w)
     \<and> map_of d ''minute_requests'' = Some (PInt (minute_requests w))
     \<and> map_of d ''daily_requests'' = Some (PInt (daily_requests w))"
proof (cases v)
  case (PDict d)
  with assms show ?thesis
    by (auto simp add: bind_eq_Some_conv start_val_Some)
qed (use assms in simp_all)

lemma rollover_steps_window:
  assumes "window_of ms = Some w"
  shows "\<exists>ms'. rollover_steps now ms = Inr ms' \<and> window_of ms' = Some (rolled now w)"
proof -
  from window_of_SomeD [OF assms] obtain d a b where
    "ms = PDict d" "map_of d ''minute_start'' = Some a" "start_val a = Some (minute_start w)"
    "as_float a = Inr (minute_start w)"
    "map_of d ''day_start'' = Some b" "start_val b = Some (day_start w)"
    "as_float b = Inr (day_start w)"
    "map_of d ''minute_requests'' = Some (PInt (minute_requests w))"
    "map_of d ''daily_requests'' = Some (PInt (daily_requests w))"
    by blast
  then show ?thesis
    by (simp add: rollover_steps_def rollover_def sub_from_float_def update_conv' rolled_def
        elapsed_ge_def)
qed

lemma advisory_window:
  assumes "window_of ms = Some w"
  shows "advisory model limits ms =
    Inr (if minute_requests w \<ge> rpm limits \<or> daily_requests w \<ge> daily limits
         then [Advisory model (PInt (rpm limits - minute_requests w))
                 (PInt (daily limits - daily_requests w))]
         else [])"
proof -
  from window_of_SomeD [OF assms] obtain d where
    "ms = PDict d"
    "map_of d ''minute_requests'' = Some (PInt (minute_requests w))"
    "map_of d ''daily_requests'' = Some (PInt (daily_requests w))"
    by blast
  then show ?thesis
    by (simp add: advisory_def)
qed

lemma increments_window:
  assumes "window_of ms = Some w"
  shows "\<exists>ms3 ms4. increment ''minute_requests'' ms = Inr ms3
     \<and> increment ''daily_requests'' ms3 = Inr ms4
     \<and> window_of ms4 = Some (w\<lparr>minute_requests := minute_requests w + 1,
                                daily_requests := daily_requests w + 1\<rparr>)"
proof -
  from window_of_SomeD [OF assms] obtain d a b where
    "ms = PDict d" "map_of d ''minute_start'' = Some a" "start_val a = Some (minute_start w)"
    "as_float a = Inr (minute_start w)"
    "map_of d ''day_start'' = Some b" "start_val b = Some (day_start w)"
    "as_float b = Inr (day_start w)"
    "map_of d ''minute_requests'' = Some (PInt (minute_requests w))"
    "map_of d ''daily_requests'' = Some (PInt (daily_requests w))"
    by blast
  then show ?thesis
    by (simp add: increment_def update_conv')
qed

lemma getitem_counts:
  assumes "window_of ms = Some w"
  shows "getitem ms ''minute_requests'' = Inr (PInt (minute_requests w))"
    and "getitem ms ''daily_requests'' = Inr (PInt (daily_requests w))"
proof -
  from window_of_SomeD [OF assms] obtain d where
    "ms = PDict d"
    "map_of d ''minute_requests'' = Some (PInt (minute_requests w))"
    "map_of d ''daily_requests'' = Some (PInt (daily_requests w))"
    by blast
  then show "getitem ms ''minute_requests'' = Inr (PInt (minute_requests w))"
    and "getitem ms ''daily_requests'' = Inr (PInt (daily_requests w))"
    by simp_all
qed

lemma tracked_SomeD:
  assumes "tracked s model = Some w"
  shows "\<exists>st ms. s = PDict st \<and> map_of st model = Some ms \<and> window_of ms = Some w"
  using assms by (cases s) (auto simp: bind_eq_Some_conv)

lemma log_request_known:
  assumes cfg: "map_of cfg model = Some limits"
    and tr: "tracked (state L) model = Some w"
  shows "\<exists>st ms. state L = PDict st \<and> window_of ms = Some (counted (rolled now w))
     \<and> log_request cfg now model L =
         Inr (True, \<lparr>state = PDict (AList.update model ms st),
                     state_file = Some (Parsed (PDict (AList.update model ms st))),
                     log_file = log_file L @ messages model limits (rolled now w)\<rparr>)"
proof -
  from tracked_SomeD [OF tr] obtain st ms0 where
    st: "state L = PDict st" "map_of st model = Some ms0" and w0: "window_of ms0 = Some w"
    by blast
  from rollover_steps_window [OF w0] obtain ms2 where
    r: "rollover_steps now ms0 = Inr ms2" and w2: "window_of ms2 = Some (rolled now w)"
    by blast
  from increments_window [OF w2] obtain ms3 ms4 where
    i: "increment ''minute_requests'' ms2 = Inr ms3" "increment ''daily_requests'' ms3 = Inr ms4"
    and w4: "window_of ms4 = Some (counted (rolled now w))"
    unfolding counted_def by blast
  have "log_request cfg now model L =
         Inr (True, \<lparr>state = PDict (AList.update model ms4 st),
                     state_file = Some (Parsed (PDict (AList.update model ms4 st))),
                     log_file = log_file L @ messages model limits (rolled now w)\<rparr>)"
    by (simp add: log_request_def cfg st r i advisory_window [OF w2] getitem_counts [OF w4]
        save_state_def counted_def messages_def)
  with st w4 show ?thesis by blast
qed

lemma status_entry_window:
  assumes "window_of ms = Some w"
  shows "status_entry limits now ms = Inr (remaining limits (rolled now w))"
proof -
  from window_of_SomeD [OF assms] obtain d a b where
    "ms = PDict d" "map_of d ''minute_start'' = Some a" "start_val a = Some (minute_start w)"
    "as_float a = Inr (minute_start w)"
    "map_of d ''day_start'' = Some b" "start_val b = Some (day_start w)"
    "as_float b = Inr (day_start w)"
    "map_of d ''minute_requests'' = Some (PInt (minute_requests w))"
    "map_of d ''daily_requests'' = Some (PInt (daily_requests w))"
    by blast
  then show ?thesis
    by (simp add: status_entry_def sub_from_float_def rolled_def remaining_def elapsed_ge_def)
qed

lemma remaining_after_rollover_window:
  assumes "window_of ms = Some w"
  shows "remaining_after_rollover limits now ms = Inr (remaining limits (rolled now w))"
proof -
  from rollover_steps_window [OF assms] obtain ms' where
    "rollover_steps now ms = Inr ms'" "window_of ms' = Some (rolled now w)"
    by blast
  then show ?thesis
    by (simp add: remaining_after_rollover_def getitem_counts remaining_def)
qed

lemma limits_loop_ok:
  assumes "distinct (map fst st)"
    and "list_all (\<lambda>(model, ms). window_of ms \<noteq> None) st"
    and "set (map fst st) \<subseteq> set (map fst cfg)"
    and "set (map fst acc) \<inter> set (map fst st) = {}"
  shows "\<exists>status. limits_loop cfg now st acc = Inr status
     \<and> map fst status = map fst acc @ map fst st
     \<and> (\<forall>model. model \<notin> set (map fst st) \<longrightarrow> map_of status model = map_of acc model)
     \<and> (\<forall>model ms. map_of st model = Some ms \<longrightarrow>
           (\<exists>limits w. map_of cfg model = Some limits \<and> window_of ms = Some w
              \<and> map_of status model = Some (remaining limits (rolled now w))))"
  using assms
proof (induction st arbitrary: acc)
  case Nil
  then show ?case by simp
next
  case (Cons item rest)
  obtain model ms where item: "item = (model, ms)" by (cases item)
  from Cons.prems item obtain w where w: "window_of ms = Some w" by auto
  from Cons.prems item have "model \<in> set (map fst cfg)" by simp
  then obtain limits where l: "map_of cfg model = Some limits"
    by (metis map_of_eq_None_iff not_Some_eq set_map)
  let ?e = "remaining limits (rolled now w)"
  let ?acc = "AList.update model ?e acc"
  from Cons.prems item have notin: "model \<notin> set (map fst acc)" "model \<notin> set (map fst rest)"
    by auto
  have keys: "map fst ?acc = map fst acc @ [model]"
    using notin by (simp add: update_keys)
  have step: "limits_loop cfg now (item # rest) acc = limits_loop cfg now rest ?acc"
    by (simp add: item l status_entry_window [OF w])
  have "\<exists>status. limits_loop cfg now rest ?acc = Inr status
     \<and> map fst status = map fst ?acc @ map fst rest
     \<and> (\<forall>m'. m' \<notin> set (map fst rest) \<longrightarrow> map_of status m' = map_of ?acc m')
     \<and> (\<forall>m' ms'. map_of rest m' = Some ms' \<longrightarrow>
           (\<exists>limits w. map_of cfg m' = Some limits \<and> window_of ms' = Some w
              \<and> map_of status m' = Some (remaining limits (rolled now w))))"
  proof (rule Cons.IH)
    show "distinct (map fst rest)" using Cons.prems by simp
    show "list_all (\<lambda>(model, ms). window_of ms \<noteq> None) rest" using Cons.prems by simp
    show "set (map fst rest) \<subseteq> set (map fst cfg)" using Cons.prems by simp
    show "set (map fst ?acc) \<inter> set (map fst rest) = {}"
      using Cons.prems item notin by (auto simp: keys)
  qed
  then obtain status where s: "limits_loop cfg now rest ?acc = Inr status"
    "map fst status = map fst ?acc @ map fst rest"
    "\<forall>m'. m' \<notin> set (map fst rest) \<longrightarrow> map_of status m' = map_of ?acc m'"
    "\<forall>m' ms'. map_of rest m' = Some ms' \<longrightarrow>
           (\<exists>limits w. map_of cfg m' = Some limits \<and> window_of ms' = Some w
              \<and> map_of status m' = Some (remaining limits (rolled now w)))"
    by blast
  have "map_of status model = Some ?e"
    using s(3) notin by (simp add: update_conv')
  with s l w show ?case
    unfolding step by (auto simp: item keys update_conv')
qed

lemma tracker_stateD:
  assumes "tracker_state cfg s"
  shows "\<exists>st. s = PDict st \<and> distinct (map fst st) \<and> set (map fst st) = set (map fst cfg)
     \<and> list_all (\<lambda>(model, ms). window_of ms \<noteq> None) st"
  using assms by (cases s) auto

lemma get_limits_ok:
  assumes "tracker_state cfg (state L)"
  shows "\<exists>status. get_limits cfg now L = Inr (PDict status, L)
     \<and> map fst status = names (state L)
     \<and> (\<forall>model ms. getitem (state L) model = Inr ms \<longrightarrow>
           (\<exists>limits. map_of cfg model = Some limits
              \<and> getitem (PDict status) model = remaining_after_rollover limits now ms))"
proof -
  from tracker_stateD [OF assms] obtain st where st: "state L = PDict st"
    and d: "distinct (map fst st)" and k: "set (map fst st) = set (map fst cfg)"
    and w: "list_all (\<lambda>(model, ms). window_of ms \<noteq> None) st"
    by blast
  have "set (map fst st) \<subseteq> set (map fst cfg)"
    and "set (map fst ([] :: (string \<times> pyval) list)) \<inter> set (map fst st) = {}"
    using k by simp_all
  from limits_loop_ok [OF d w this, of now]
  obtain status where s: "limits_loop cfg now st [] = Inr status"
    "map fst status = map fst st"
    "\<forall>model ms. map_of st model = Some ms \<longrightarrow>
           (\<exists>limits w. map_of cfg model = Some limits \<and> window_of ms = Some w
              \<and> map_of status model = Some (remaining limits (rolled now w)))"
    by auto
  have "getitem (state L) model = Inr ms \<Longrightarrow>
      \<exists>limits. map_of cfg model = Some limits
         \<and> getitem (PDict status) model = remaining_after_rollover limits now ms" for model ms
  proof -
    assume "getitem (state L) model = Inr ms"
    then have "map_of st model = Some ms"
      by (simp add: st split: option.splits)
    with s(3) obtain limits w where "map_of cfg model = Some limits" "window_of ms = Some w"
      "map_of status model = Some (remaining limits (rolled now w))"
      by blast
    then show ?thesis
      by (simp add: remaining_after_rollover_window)
  qed
  with s(1,2) show ?thesis
    by (simp add: get_limits_def st)
qed

lemma window_update:
  assumes "map_of st model = Some ms0" "window_of ms \<noteq> None"
    "list_all (\<lambda>(model, ms). window_of ms \<noteq> None) st"
  shows "list_all (\<lambda>(model, ms). window_of ms \<noteq> None) (AList.update model ms st)"
  using assms by (induction st) (auto split: if_splits)

lemma keys_update:
  assumes "map_of st model = Some ms0"
  shows "map fst (AList.update model ms st) = map fst st"
proof -
  from assms have "model \<in> fst ` set st"
    by (metis map_of_eq_None_iff option.distinct(1))
  then show ?thesis by (simp add: update_keys)
qed

lemma tracker_state_tracked:
  assumes "tracker_state cfg s" "map_of cfg model = Some limits"
  shows "\<exists>w. tracked s model = Some w"
proof -
  from tracker_stateD [OF assms(1)] obtain st where st: "s = PDict st"
    and k: "set (map fst st) = set (map fst cfg)"
    and w: "list_all (\<lambda>(model, ms). window_of ms \<noteq> None) st"
    by blast
  from assms(2) have "model \<in> set (map fst cfg)"
    by (metis map_of_eq_None_iff option.distinct(1) set_map)
  with k have "model \<in> fst ` set st" by simp
  then obtain ms where ms: "map_of st model = Some ms"
    by (metis map_of_eq_None_iff not_Some_eq)
  then have "(model, ms) \<in> set st" by (rule map_of_SomeD)
  with w have "window_of ms \<noteq> None" by (auto simp: list_all_iff)
  with ms show ?thesis by (auto simp: st)
qed

lemma log_request_tracker_state:
  assumes ts: "tracker_state cfg (state L)"
  shows "\<exists>L'. log_request cfg now model L = Inr (True, L') \<and> tracker_state cfg (state L')
     \<and> (\<forall>m. m \<noteq> model \<longrightarrow> tracked (state L') m = tracked (state L) m)
     \<and> (\<forall>limits w. map_of cfg model = Some limits \<longrightarrow> tracked (state L) model = Some w \<longrightarrow>
           tracked (state L') model = Some (counted (rolled now w)))
     \<and> (map_of cfg model = None \<longrightarrow> state L' = state L)"
proof (cases "map_of cfg model")
  case None
  then show ?thesis using ts by (simp add: log_request_def)
next
  case (Some limits)
  from tracker_state_tracked [OF ts Some] obtain w where w: "tracked (state L) model = Some w"
    by blast
  from log_request_known [OF Some w, of now] obtain st ms where st: "state L = PDict st"
    and ms: "window_of ms = Some (counted (rolled now w))"
    and lr: "log_request cfg now model L =
         Inr (True, \<lparr>state = PDict (AList.update model ms st),
                     state_file = Some (Parsed (PDict (AList.update model ms st))),
                     log_file = log_file L @ messages model limits (rolled now w)\<rparr>)"
    by blast
  from w st obtain ms0 where ms0: "map_of st model = Some ms0"
    by (auto simp: bind_eq_Some_conv)
  from ts st have "list_all (\<lambda>(model, ms). window_of ms \<noteq> None) st"
    by simp
  with ms have "list_all (\<lambda>(model, ms). window_of ms \<noteq> None) (AList.update model ms st)"
    by (intro window_update [OF ms0]) simp_all
  then have "tracker_state cfg (PDict (AList.update model ms st))"
    using ts st by (simp add: keys_update [OF ms0])
  then show ?thesis
    using lr w ms Some st by (simp add: update_conv')
qed

subsection \<open>Fresh states and sequences of calls\<close>

lemma initialize_entries_keys: "map fst (initialize_entries clock k ms) = ms"
  by (induction ms arbitrary: k) simp_all

lemma initialize_entries_window:
  assumes "(model, v) \<in> set (initialize_entries clock k ms)"
  shows "\<exists>j. window_of v = Some \<lparr>minute_start = Finite (clock j), day_start = Finite (clock (j + 1)),
                                   minute_requests = 0, daily_requests = 0\<rparr>"
  using assms by (induction ms arbitrary: k) auto

lemma init_fresh:
  "\<exists>L. RateLimiter_init cfg clock None = Inr L
     \<and> state L = PDict (initialize_entries clock 0 (map fst cfg))
     \<and> state_file L = Some (Parsed (state L)) \<and> log_file L = []"
  by (simp add: RateLimiter_init_def load_state_def save_state_def initialize_state_def)

lemma fresh_tracker_state:
  assumes "distinct (map fst cfg)"
  shows "tracker_state cfg (PDict (initialize_entries clock 0 (map fst cfg)))"
proof -
  have "list_all (\<lambda>(model, ms). window_of ms \<noteq> None) (initialize_entries clock 0 (map fst cfg))"
    unfolding list_all_iff using initialize_entries_window by fastforce
  with assms show ?thesis
    by (simp add: initialize_entries_keys)
qed

lemma fresh_tracked:
  assumes "tracked (PDict (initialize_entries clock 0 ms)) model = Some w"
  shows "\<exists>j. w = \<lparr>minute_start = Finite (clock j), day_start = Finite (clock (j + 1)),
                   minute_requests = 0, daily_requests = 0\<rparr>"
proof -
  from assms obtain v where v: "map_of (initialize_entries clock 0 ms) model = Some v"
    and w: "window_of v = Some w"
    by (auto simp: bind_eq_Some_conv)
  from v have "(model, v) \<in> set (initialize_entries clock 0 ms)" by (rule map_of_SomeD)
  from initialize_entries_window [OF this] w show ?thesis by auto
qed

lemma get_limits_keeps:
  assumes "get_limits cfg now L = Inr (status, L')"
  shows "L' = L"
proof (cases "items (state L)")
  case (Inl e)
  with assms show ?thesis by (simp add: get_limits_def)
next
  case (Inr its)
  with assms show ?thesis
    by (cases "limits_loop cfg now its []") (auto simp: get_limits_def)
qed


lemma calls_counts:
  assumes "tracker_state cfg (state L0)"
    and "\<forall>model w. tracked (state L0) model = Some w \<longrightarrow>
           0 \<le> minute_requests w \<and> 0 \<le> daily_requests w"
  shows "\<exists>L. calls cfg cs L0 = Inr L \<and> tracker_state cfg (state L)
     \<and> (\<forall>model w. tracked (state L) model = Some w \<longrightarrow>
           0 \<le> minute_requests w \<and> 0 \<le> daily_requests w)"
  using assms
proof (induction cs arbitrary: L0)
  case Nil
  have "calls cfg [] L0 = Inr L0" by simp
  with Nil show ?case by metis
next
  case (Cons c cs)
  show ?case
  proof (cases c)
    case (Log_request t model)
    from log_request_tracker_state [OF Cons.prems(1), of t model] obtain L1 where
      lr: "log_request cfg t model L0 = Inr (True, L1)" and ts: "tracker_state cfg (state L1)"
      and other: "\<forall>m. m \<noteq> model \<longrightarrow> tracked (state L1) m = tracked (state L0) m"
      and known: "\<forall>limits w. map_of cfg model = Some limits \<longrightarrow> tracked (state L0) model = Some w \<longrightarrow>
           tracked (state L1) model = Some (counted (rolled t w))"
      and unknown: "map_of cfg model = None \<longrightarrow> state L1 = state L0"
      by (elim exE conjE) (rule that)
    have nn: "0 \<le> minute_requests w \<and> 0 \<le> daily_requests w"
      if w: "tracked (state L1) m = Some w" for m w
    proof (cases "m = model")
      case False
      with other w have "tracked (state L0) m = Some w" by metis
      with Cons.prems(2) show ?thesis by blast
    next
      case True
      show ?thesis
      proof (cases "map_of cfg model")
        case None
        with unknown w have "tracked (state L0) m = Some w" by metis
        with Cons.prems(2) show ?thesis by blast
      next
        case (Some limits)
        from tracker_state_tracked [OF Cons.prems(1) Some] obtain w0 where
          w0: "tracked (state L0) model = Some w0" by blast
        from known Some w0 have "tracked (state L1) model = Some (counted (rolled t w0))"
          by blast
        with w True have "w = counted (rolled t w0)" by simp
        moreover from Cons.prems(2) w0 have "0 \<le> minute_requests w0 \<and> 0 \<le> daily_requests w0"
          by blast
        ultimately show ?thesis by (simp add: counted_def rolled_def)
      qed
    qed
    then have "\<forall>model w. tracked (state L1) model = Some w \<longrightarrow>
           0 \<le> minute_requests w \<and> 0 \<le> daily_requests w"
      by blast
    from Cons.IH [OF ts this] obtain L where "calls cfg cs L1 = Inr L" "tracker_state cfg (state L)"
      "\<forall>model w. tracked (state L) model = Some w \<longrightarrow>
           0 \<le> minute_requests w \<and> 0 \<le> daily_requests w"
      by blast
    moreover have "calls cfg (c # cs) L0 = calls cfg cs L1"
      by (simp add: Log_request lr)
    ultimately show ?thesis by metis
  next
    case (Get_limits t)
    from get_limits_ok [OF Cons.prems(1), of t] obtain status where
      "get_limits cfg t L0 = Inr (PDict status, L0)"
      by blast
    then have "calls cfg (c # cs) L0 = calls cfg cs L0"
      by (simp add: Get_limits)
    moreover from Cons.IH [OF Cons.prems] obtain L where "calls cfg cs L0 = Inr L"
      "tracker_state cfg (state L)"
      "\<forall>model w. tracked (state L) model = Some w \<longrightarrow>
           0 \<le> minute_requests w \<and> 0 \<le> daily_requests w"
      by blast
    ultimately show ?thesis by metis
  qed
qed

subsection \<open>Loading, and the configuration of the source\<close>


lemma initialize_entries_lookup:
  assumes "model \<in> set ms"
  shows "\<exists>v. map_of (initialize_entries clock k ms) model = Some v"
proof -
  from assms have "model \<in> fst ` set (initialize_entries clock k ms)"
    by (metis initialize_entries_keys set_map)
  then show ?thesis
    by (metis map_of_eq_None_iff not_Some_eq)
qed


lemma MODELS_pro: "map_of MODELS ''gemini-1.5-pro'' = Some \<lparr>rpm = 2, daily = 50\<rparr>"
  by (simp add: MODELS_def)

lemma MODELS_distinct: "distinct (map fst MODELS)"
  by (simp add: MODELS_def)

subsection \<open>The two limiters with unusual starts\<close>

text \<open>
  With the int beyond the doubles as minute start, both operations raise at their first
  float subtraction, and the entry is no window state. With the start \<open>2 powr - 60\<close>,
  \<open>get_limits\<close> at time 60 reports the full minute allowance.
\<close>

lemma huge_start_raises:
  "log_request example_config t ''gemini-1.5-pro'' huge_start_limiter = Inl OverflowError"
  "get_limits example_config t huge_start_limiter = Inl OverflowError"
  "tracked (state huge_start_limiter) ''gemini-1.5-pro'' = None"
  by (simp_all add: log_request_def get_limits_def example_config_def huge_start_limiter_def
      rollover_steps_def rollover_def status_entry_def int_start_beyond_doubles
      huge_is_no_timestamp)

lemma tiny_start_rolls_over:
  "tracked (state tiny_start_limiter) ''gemini-1.5-pro''
     = Some \<lparr>minute_start = Finite tiny, day_start = Finite 0,
             minute_requests = 2, daily_requests = 7\<rparr>"
  "get_limits example_config 60 tiny_start_limiter
     = Inr (PDict [(''gemini-1.5-pro'',
                    PDict [(''remaining_minute'', PInt 2), (''remaining_daily'', PInt 43)])],
            tiny_start_limiter)"
  by (simp_all add: get_limits_def example_config_def tiny_start_limiter_def status_entry_def
      sub_from_float_def rounded_60_tiny)

section \<open>The claims\<close>



text \<open>
  C2. For a name absent from the configured mapping, \<open>log_request\<close> logs the unknown
  model, returns \<open>True\<close> as on the success path, raises nothing, and changes neither the
  state nor the store; \<open>get_limits\<close> afterwards returns what it returned before, at
  every observation time.
\<close>

theorem log_request_unknown_resource:
  assumes "map_of cfg model = None"
  shows "\<exists>L'. log_request cfg now model L = Inr (True, L')
     \<and> state L' = state L \<and> state_file L' = state_file L
     \<and> log_file L' = log_file L @ [Unknown_model model]
     \<and> (\<forall>t. status_of (get_limits cfg t L') = status_of (get_limits cfg t L))"
proof -
  let ?L = "L\<lparr>log_file := log_file L @ [Unknown_model model]\<rparr>"
  have "get_limits cfg t ?L = map_sum id (\<lambda>(s, l). (s, ?L)) (get_limits cfg t L)" for t
    by (cases "items (state L)"; cases "limits_loop cfg t (projr (items (state L))) []")
       (simp_all add: get_limits_def)
  then have "\<forall>t. status_of (get_limits cfg t ?L) = status_of (get_limits cfg t L)"
    by (simp add: status_of_def sum.map_comp comp_def case_prod_unfold cong: sum.map_cong)
  with assms show ?thesis
    by (simp add: log_request_def)
qed

text \<open>The theorem at the example limiter and a name it does not configure.\<close>

theorem log_request_unknown_resource_witness:
  "map_of example_config ''gpt-4'' = None
   \<and> log_request example_config 160 ''gpt-4'' example_limiter
       = Inr (True, example_limiter\<lparr>log_file := [Unknown_model ''gpt-4'']\<rparr>)
   \<and> status_of (get_limits example_config 170
         (example_limiter\<lparr>log_file := [Unknown_model ''gpt-4'']\<rparr>))
       = status_of (get_limits example_config 170 example_limiter)"
proof -
  have c: "map_of example_config ''gpt-4'' = None"
    by (simp add: example_config_def)
  from log_request_unknown_resource [OF c, of 160 example_limiter] obtain L' where
    "log_request example_config 160 ''gpt-4'' example_limiter = Inr (True, L')"
    "status_of (get_limits example_config 170 L') = status_of (get_limits example_config 170 example_limiter)"
    by (elim exE conjE allE [of _ 170]) (rule that)
  moreover have "log_request example_config 160 ''gpt-4'' example_limiter
       = Inr (True, example_limiter\<lparr>log_file := [Unknown_model ''gpt-4'']\<rparr>)"
    by (simp add: log_request_def c example_limiter_def)
  ultimately show ?thesis using c by simp
qed




text \<open>
  C4. On a tracker state, \<open>get_limits\<close> returns one entry per name of the state; the
  entry of a name is what the rollover steps of \<open>log_request\<close>, run on the stored
  object at the same time, followed by the two subtractions give: each limit minus the
  count after rollover, both operations taking the same float difference for the age of
  a window. The limiter it returns is the one it was given: no count, no window start
  and not the store is changed.
\<close>

theorem get_limits_same_rollover:
  assumes "tracker_state cfg (state L)"
  shows "\<exists>status. get_limits cfg now L = Inr (PDict status, L)
     \<and> map fst status = names (state L)
     \<and> (\<forall>model ms. getitem (state L) model = Inr ms \<longrightarrow>
           (\<exists>limits w. map_of cfg model = Some limits \<and> window_of ms = Some w
              \<and> getitem (PDict status) model = remaining_after_rollover limits now ms
              \<and> getitem (PDict status) model = Inr (remaining limits (rolled now w))))"
proof -
  from get_limits_ok [OF assms, of now] obtain status where
    gl: "get_limits cfg now L = Inr (PDict status, L)" and k: "map fst status = names (state L)"
    and e: "\<forall>model ms. getitem (state L) model = Inr ms \<longrightarrow>
           (\<exists>limits. map_of cfg model = Some limits
              \<and> getitem (PDict status) model = remaining_after_rollover limits now ms)"
    by (elim exE conjE) (rule that)
  from tracker_stateD [OF assms] obtain st where st: "state L = PDict st"
    and w: "list_all (\<lambda>(model, ms). window_of ms \<noteq> None) st"
    by blast
  have "\<exists>limits w. map_of cfg model = Some limits \<and> window_of ms = Some w
              \<and> getitem (PDict status) model = remaining_after_rollover limits now ms
              \<and> getitem (PDict status) model = Inr (remaining limits (rolled now w))"
    if g: "getitem (state L) model = Inr ms" for model ms
  proof -
    from e g obtain limits where l: "map_of cfg model = Some limits"
      and r: "getitem (PDict status) model = remaining_after_rollover limits now ms"
      by blast
    from g have "map_of st model = Some ms"
      by (simp add: st split: option.splits)
    then have "(model, ms) \<in> set st" by (rule map_of_SomeD)
    with w obtain w0 where w0: "window_of ms = Some w0"
      by (auto simp: list_all_iff)
    from r have "getitem (PDict status) model = Inr (remaining limits (rolled now w0))"
      by (simp only: remaining_after_rollover_window [OF w0])
    with l r w0 show ?thesis by blast
  qed
  with gl k show ?thesis by blast
qed

text \<open>The theorem at the example limiter, 60 seconds after the start of its minute window.\<close>

theorem get_limits_same_rollover_witness:
  "tracker_state example_config (state example_limiter)
   \<and> get_limits example_config 160 example_limiter
       = Inr (PDict [(''gemini-1.5-pro'',
                      PDict [(''remaining_minute'', PInt 2), (''remaining_daily'', PInt 43)])],
              example_limiter)
   \<and> remaining_after_rollover \<lparr>rpm = 2, daily = 50\<rparr> 160
        (PDict [(''minute_start'', PFloat (Finite 100)), (''day_start'', PFloat (Finite 40)),
                (''minute_requests'', PInt 2), (''daily_requests'', PInt 7)])
       = Inr (PDict [(''remaining_minute'', PInt 2), (''remaining_daily'', PInt 43)])"
proof -
  have h: "tracker_state example_config (state example_limiter)"
    by (simp add: example_config_def example_limiter_def)
  from get_limits_same_rollover [OF h, of 160] obtain status where
    "get_limits example_config 160 example_limiter = Inr (PDict status, example_limiter)"
    by blast
  moreover have "get_limits example_config 160 example_limiter
       = Inr (PDict [(''gemini-1.5-pro'',
                      PDict [(''remaining_minute'', PInt 2), (''remaining_daily'', PInt 43)])],
              example_limiter)"
    by (simp add: get_limits_def example_config_def example_limiter_def status_entry_def
        sub_from_float_def)
  moreover have "remaining_after_rollover \<lparr>rpm = 2, daily = 50\<rparr> 160
        (PDict [(''minute_start'', PFloat (Finite 100)), (''day_start'', PFloat (Finite 40)),
                (''minute_requests'', PInt 2), (''daily_requests'', PInt 7)])
       = Inr (PDict [(''remaining_minute'', PInt 2), (''remaining_daily'', PInt 43)])"
    by (simp add: remaining_after_rollover_def rollover_steps_def rollover_def sub_from_float_def)
  ultimately show ?thesis using h by simp
qed

text \<open>
  C5. With the configuration of the source, where \<open>gemini-1.5-pro\<close> has \<open>rpm = 2\<close> and
  \<open>daily = 50\<close>, and a limiter constructed without a store at time \<open>T0\<close>: after a request
  at \<open>T0\<close> the status of the model is 1 and 49; after a second request at \<open>T0 + 30\<close> it is
  0 and 48; at \<open>T0 + 65\<close>, with no further request, it is 2 and 48.
\<close>

theorem scenario_gemini_1_5_pro:
  "\<exists>L0 L1 L2 s1 s2 s3.
     RateLimiter_init MODELS (steady T0) None = Inr L0
     \<and> log_request MODELS T0 ''gemini-1.5-pro'' L0 = Inr (True, L1)
     \<and> get_limits MODELS T0 L1 = Inr (s1, L1)
     \<and> getitem s1 ''gemini-1.5-pro''
         = Inr (PDict [(''remaining_minute'', PInt 1), (''remaining_daily'', PInt 49)])
     \<and> log_request MODELS (T0 + 30) ''gemini-1.5-pro'' L1 = Inr (True, L2)
     \<and> get_limits MODELS (T0 + 30) L2 = Inr (s2, L2)
     \<and> getitem s2 ''gemini-1.5-pro''
         = Inr (PDict [(''remaining_minute'', PInt 0), (''remaining_daily'', PInt 48)])
     \<and> get_limits MODELS (T0 + 65) L2 = Inr (s3, L2)
     \<and> getitem s3 ''gemini-1.5-pro''
         = Inr (PDict [(''remaining_minute'', PInt 2), (''remaining_daily'', PInt 48)])"
proof -
  let ?m = "''gemini-1.5-pro''"
  let ?lim = "\<lparr>rpm = 2, daily = 50\<rparr>"
  let ?w0 = "\<lparr>minute_start = Finite T0, day_start = Finite T0, minute_requests = 0, daily_requests = 0\<rparr>"
  let ?w1 = "\<lparr>minute_start = Finite T0, day_start = Finite T0, minute_requests = 1, daily_requests = 1\<rparr>"
  let ?w2 = "\<lparr>minute_start = Finite T0, day_start = Finite T0, minute_requests = 2, daily_requests = 2\<rparr>"
  from init_fresh [of MODELS "steady T0"] obtain L0 where
    i: "RateLimiter_init MODELS (steady T0) None = Inr L0"
    and s0: "state L0 = PDict (initialize_entries (steady T0) 0 (map fst MODELS))"
    by blast
  have ts0: "tracker_state MODELS (state L0)"
    unfolding s0 by (rule fresh_tracker_state [OF MODELS_distinct])
  from tracker_state_tracked [OF ts0 MODELS_pro] obtain w where w: "tracked (state L0) ?m = Some w"
    by blast
  with fresh_tracked [of "steady T0" "map fst MODELS" ?m w] have w0: "tracked (state L0) ?m = Some ?w0"
    by (auto simp: s0 steady_def)
  \<comment> \<open>first request, at \<open>T0\<close>\<close>
  from log_request_tracker_state [OF ts0, of T0 ?m] obtain L1 where
    l1: "log_request MODELS T0 ?m L0 = Inr (True, L1)" and ts1: "tracker_state MODELS (state L1)"
    and k1: "\<forall>limits w. map_of MODELS ?m = Some limits \<longrightarrow> tracked (state L0) ?m = Some w \<longrightarrow>
           tracked (state L1) ?m = Some (counted (rolled T0 w))"
    by (elim exE conjE) (rule that)
  from k1 MODELS_pro w0 have "tracked (state L1) ?m = Some (counted (rolled T0 ?w0))"
    by blast
  then have w1: "tracked (state L1) ?m = Some ?w1"
    by (simp add: counted_def rolled_def)
  \<comment> \<open>second request, at \<open>T0 + 30\<close>\<close>
  from log_request_tracker_state [OF ts1, of "T0 + 30" ?m] obtain L2 where
    l2: "log_request MODELS (T0 + 30) ?m L1 = Inr (True, L2)" and ts2: "tracker_state MODELS (state L2)"
    and k2: "\<forall>limits w. map_of MODELS ?m = Some limits \<longrightarrow> tracked (state L1) ?m = Some w \<longrightarrow>
           tracked (state L2) ?m = Some (counted (rolled (T0 + 30) w))"
    by (elim exE conjE) (rule that)
  from k2 MODELS_pro w1 have "tracked (state L2) ?m = Some (counted (rolled (T0 + 30) ?w1))"
    by blast
  then have w2: "tracked (state L2) ?m = Some ?w2"
    by (simp add: counted_def rolled_def)
  \<comment> \<open>what \<open>get_limits\<close> reports for a tracked window state\<close>
  have report: "\<exists>s. get_limits MODELS t L = Inr (s, L)
      \<and> getitem s ?m = Inr (remaining ?lim (rolled t w))"
    if ts: "tracker_state MODELS (state L)" and tr: "tracked (state L) ?m = Some w" for t L w
  proof -
    from get_limits_ok [OF ts, of t] obtain status where
      gl: "get_limits MODELS t L = Inr (PDict status, L)"
      and e: "\<forall>model ms. getitem (state L) model = Inr ms \<longrightarrow>
           (\<exists>limits. map_of MODELS model = Some limits
              \<and> getitem (PDict status) model = remaining_after_rollover limits t ms)"
      by (elim exE conjE) (rule that)
    from tracked_SomeD [OF tr] obtain st ms where "state L = PDict st" "map_of st ?m = Some ms"
      and wm: "window_of ms = Some w"
      by blast
    then have "getitem (state L) ?m = Inr ms" by simp
    with e obtain limits where "map_of MODELS ?m = Some limits"
      "getitem (PDict status) ?m = remaining_after_rollover limits t ms"
      by blast
    with MODELS_pro have "getitem (PDict status) ?m = remaining_after_rollover ?lim t ms"
      by simp
    with gl show ?thesis
      by (simp add: remaining_after_rollover_window [OF wm])
  qed
  from report [OF ts1 w1, of T0] obtain s1 where
    g1: "get_limits MODELS T0 L1 = Inr (s1, L1)"
    "getitem s1 ?m = Inr (PDict [(''remaining_minute'', PInt 1), (''remaining_daily'', PInt 49)])"
    by (auto simp: remaining_def rolled_def)
  from report [OF ts2 w2, of "T0 + 30"] obtain s2 where
    g2: "get_limits MODELS (T0 + 30) L2 = Inr (s2, L2)"
    "getitem s2 ?m = Inr (PDict [(''remaining_minute'', PInt 0), (''remaining_daily'', PInt 48)])"
    by (auto simp: remaining_def rolled_def)
  from report [OF ts2 w2, of "T0 + 65"] obtain s3 where
    g3: "get_limits MODELS (T0 + 65) L2 = Inr (s3, L2)"
    "getitem s3 ?m = Inr (PDict [(''remaining_minute'', PInt 2), (''remaining_daily'', PInt 48)])"
    by (auto simp: remaining_def rolled_def)
  from i l1 g1 l2 g2 g3 show ?thesis by blast
qed

text \<open>
  The claim C6 says that a corrupt store is treated as absent. \<open>load_state\<close> calls
  \<open>json.load\<close> with no handler around it, so construction raises.
\<close>

theorem corrupt_store_raises:
  "RateLimiter_init MODELS (steady 0) (Some Unparseable) = Inl JSONDecodeError"
  by (simp add: RateLimiter_init_def load_state_def)

text \<open>
  C6, amended. When the store is missing, construction does not raise: the state has
  one entry per configured name, in order, each with both counts zero and both window
  starts readings of the clock taken during construction, and it is written to the
  store. When the store exists and its content does not parse, construction raises
  the decode error of \<open>json.load\<close>.
\<close>

theorem init_missing_store:
  "(\<exists>L. RateLimiter_init cfg clock None = Inr L
       \<and> names (state L) = map fst cfg
       \<and> (\<forall>model \<in> set (map fst cfg).
             \<exists>k. tracked (state L) model
                   = Some \<lparr>minute_start = Finite (clock k), day_start = Finite (clock (k + 1)),
                           minute_requests = 0, daily_requests = 0\<rparr>)
       \<and> state_file L = Some (Parsed (state L)))
   \<and> RateLimiter_init cfg clock (Some Unparseable) = Inl JSONDecodeError"
proof -
  from init_fresh [of cfg clock] obtain L where
    i: "RateLimiter_init cfg clock None = Inr L"
    and s: "state L = PDict (initialize_entries clock 0 (map fst cfg))"
    and f: "state_file L = Some (Parsed (state L))"
    by blast
  have "\<exists>k. tracked (state L) model
          = Some \<lparr>minute_start = Finite (clock k), day_start = Finite (clock (k + 1)),
                  minute_requests = 0, daily_requests = 0\<rparr>"
    if "model \<in> set (map fst cfg)" for model
  proof -
    from initialize_entries_lookup [OF that, of clock 0] obtain v where
      v: "map_of (initialize_entries clock 0 (map fst cfg)) model = Some v"
      by blast
    then have "(model, v) \<in> set (initialize_entries clock 0 (map fst cfg))"
      by (rule map_of_SomeD)
    from initialize_entries_window [OF this] v show ?thesis
      by (auto simp: s)
  qed
  moreover have "names (state L) = map fst cfg"
    by (simp add: s initialize_entries_keys)
  moreover have "RateLimiter_init cfg clock (Some Unparseable) = Inl JSONDecodeError"
    by (simp add: RateLimiter_init_def load_state_def)
  ultimately show ?thesis using i f by blast
qed

text \<open>The theorem at the example configuration, the clock standing at 5.\<close>

theorem init_missing_store_witness:
  "''gemini-1.5-pro'' \<in> set (map fst example_config)
   \<and> (\<exists>L. RateLimiter_init example_config (steady 5) None = Inr L
         \<and> names (state L) = [''gemini-1.5-pro'']
         \<and> tracked (state L) ''gemini-1.5-pro''
             = Some \<lparr>minute_start = Finite 5, day_start = Finite 5, minute_requests = 0, daily_requests = 0\<rparr>
         \<and> state_file L = Some (Parsed (state L)))"
  using init_missing_store [of example_config "steady 5"]
  by (simp add: example_config_def steady_def)


text \<open>
  C8. When \<open>get_limits\<close> returns, the limiter is unchanged (no window start and no
  count is advanced or reset), and a second call at the same time returns the same
  status mapping.
\<close>

theorem get_limits_idempotent:
  assumes "get_limits cfg now L = Inr (status, L')"
  shows "L' = L \<and> get_limits cfg now L' = Inr (status, L')"
  using assms get_limits_keeps [OF assms] by simp

text \<open>The theorem at the example limiter: two calls in a row.\<close>

theorem get_limits_idempotent_witness:
  "get_limits example_config 130 example_limiter
     = Inr (PDict [(''gemini-1.5-pro'',
                    PDict [(''remaining_minute'', PInt 0), (''remaining_daily'', PInt 43)])],
            example_limiter)
   \<and> bindE (get_limits example_config 130 example_limiter)
        (\<lambda>(first, L'). get_limits example_config 130 L')
       = Inr (PDict [(''gemini-1.5-pro'',
                      PDict [(''remaining_minute'', PInt 0), (''remaining_daily'', PInt 43)])],
              example_limiter)"
proof -
  have h: "get_limits example_config 130 example_limiter
     = Inr (PDict [(''gemini-1.5-pro'',
                    PDict [(''remaining_minute'', PInt 0), (''remaining_daily'', PInt 43)])],
            example_limiter)"
    by (simp add: get_limits_def example_config_def example_limiter_def status_entry_def
        sub_from_float_def)
  from get_limits_idempotent [OF h] show ?thesis
    by (simp add: h)
qed

text \<open>
  C9. From a limiter constructed without a store, every sequence of \<open>log_request\<close> and
  \<open>get_limits\<close> calls, at any times and for any names, runs without an exception, and
  in the limiter it reaches every configured name has a window state, no count is
  negative, and a further \<open>log_request\<close> for a configured name sets each count to the
  old count, or to 0 when its window has run out (the float difference of the reading
  and the start is 60, or 86400, or more), plus exactly 1.
\<close>

theorem counts_never_negative:
  assumes "distinct (map fst cfg)"
    and "RateLimiter_init cfg clock None = Inr L0"
  shows "\<exists>L. calls cfg cs L0 = Inr L
     \<and> (\<forall>model \<in> set (map fst cfg). tracked (state L) model \<noteq> None)
     \<and> (\<forall>model w. tracked (state L) model = Some w \<longrightarrow>
           0 \<le> minute_requests w \<and> 0 \<le> daily_requests w
           \<and> (\<forall>limits now. map_of cfg model = Some limits \<longrightarrow>
                 (\<exists>L' w'. log_request cfg now model L = Inr (True, L')
                    \<and> tracked (state L') model = Some w'
                    \<and> minute_requests w'
                        = (if elapsed_ge now (minute_start w) 60 then 0 else minute_requests w) + 1
                    \<and> daily_requests w'
                        = (if elapsed_ge now (day_start w) 86400 then 0 else daily_requests w) + 1)))"
proof -
  from init_fresh [of cfg clock] assms(2) have
    s0: "state L0 = PDict (initialize_entries clock 0 (map fst cfg))"
    by auto
  have ts0: "tracker_state cfg (state L0)"
    unfolding s0 by (rule fresh_tracker_state [OF assms(1)])
  have nn0: "\<forall>model w. tracked (state L0) model = Some w \<longrightarrow>
           0 \<le> minute_requests w \<and> 0 \<le> daily_requests w"
  proof (intro allI impI)
    fix model w
    assume "tracked (state L0) model = Some w"
    with fresh_tracked [of clock "map fst cfg" model w] obtain j where
      "w = \<lparr>minute_start = Finite (clock j), day_start = Finite (clock (j + 1)),
            minute_requests = 0, daily_requests = 0\<rparr>"
      by (auto simp: s0)
    then show "0 \<le> minute_requests w \<and> 0 \<le> daily_requests w" by simp
  qed
  from calls_counts [OF ts0 nn0, of cs] obtain L where
    c: "calls cfg cs L0 = Inr L" and ts: "tracker_state cfg (state L)"
    and nn: "\<forall>model w. tracked (state L) model = Some w \<longrightarrow>
           0 \<le> minute_requests w \<and> 0 \<le> daily_requests w"
    by (elim exE conjE) (rule that)
  have known: "tracked (state L) model \<noteq> None" if "model \<in> set (map fst cfg)" for model
  proof -
    from that obtain limits where "map_of cfg model = Some limits"
      by (metis map_of_eq_None_iff not_Some_eq set_map)
    from tracker_state_tracked [OF ts this] show ?thesis by auto
  qed
  have step: "\<exists>L' w'. log_request cfg now model L = Inr (True, L')
        \<and> tracked (state L') model = Some w'
        \<and> minute_requests w' = (if elapsed_ge now (minute_start w) 60 then 0 else minute_requests w) + 1
        \<and> daily_requests w' = (if elapsed_ge now (day_start w) 86400 then 0 else daily_requests w) + 1"
    if w: "tracked (state L) model = Some w" and l: "map_of cfg model = Some limits"
    for model w limits now
  proof -
    from log_request_known [OF l w, of now] obtain st ms where
      ms: "window_of ms = Some (counted (rolled now w))"
      and lr: "log_request cfg now model L =
         Inr (True, \<lparr>state = PDict (AList.update model ms st),
                     state_file = Some (Parsed (PDict (AList.update model ms st))),
                     log_file = log_file L @ messages model limits (rolled now w)\<rparr>)"
      by (elim exE conjE) (rule that)
    have "tracked (PDict (AList.update model ms st)) model = Some (counted (rolled now w))"
      using ms by (simp add: update_conv')
    with lr show ?thesis
      by (simp add: counted_def rolled_def)
  qed
  show ?thesis
  proof (rule exI [of _ L], intro conjI ballI allI impI)
    show "calls cfg cs L0 = Inr L" by (rule c)
  next
    fix model
    assume "model \<in> set (map fst cfg)"
    then show "tracked (state L) model \<noteq> None" by (rule known)
  next
    fix model w
    assume "tracked (state L) model = Some w"
    with nn show "0 \<le> minute_requests w" by blast
  next
    fix model w
    assume "tracked (state L) model = Some w"
    with nn show "0 \<le> daily_requests w" by blast
  next
    fix model w limits now
    assume "tracked (state L) model = Some w" "map_of cfg model = Some limits"
    then show "\<exists>L' w'. log_request cfg now model L = Inr (True, L')
        \<and> tracked (state L') model = Some w'
        \<and> minute_requests w' = (if elapsed_ge now (minute_start w) 60 then 0 else minute_requests w) + 1
        \<and> daily_requests w' = (if elapsed_ge now (day_start w) 86400 then 0 else daily_requests w) + 1"
      by (rule step)
  qed
qed

text \<open>The theorem at the example configuration and the example calls.\<close>

theorem counts_never_negative_witness:
  "distinct (map fst example_config)
   \<and> (\<exists>L0 L. RateLimiter_init example_config (steady 5) None = Inr L0
         \<and> calls example_config example_calls L0 = Inr L
         \<and> tracked (state L) ''gemini-1.5-pro''
             = Some \<lparr>minute_start = Finite 70, day_start = Finite 5, minute_requests = 1, daily_requests = 2\<rparr>
         \<and> (\<forall>model w. tracked (state L) model = Some w \<longrightarrow>
               0 \<le> minute_requests w \<and> 0 \<le> daily_requests w))"
proof -
  have h1: "distinct (map fst example_config)"
    by (simp add: example_config_def)
  obtain L0 where h2: "RateLimiter_init example_config (steady 5) None = Inr L0"
    by (simp add: RateLimiter_init_def load_state_def)
  from counts_never_negative [OF h1 h2, of example_calls] obtain L where
    c: "calls example_config example_calls L0 = Inr L"
    and nn: "\<forall>model w. tracked (state L) model = Some w \<longrightarrow>
           0 \<le> minute_requests w \<and> 0 \<le> daily_requests w
           \<and> (\<forall>limits now. map_of example_config model = Some limits \<longrightarrow>
                 (\<exists>L' w'. log_request example_config now model L = Inr (True, L')
                    \<and> tracked (state L') model = Some w'
                    \<and> minute_requests w'
                        = (if elapsed_ge now (minute_start w) 60 then 0 else minute_requests w) + 1
                    \<and> daily_requests w'
                        = (if elapsed_ge now (day_start w) 86400 then 0 else daily_requests w) + 1))"
    by (elim exE conjE) (rule that)
  from h2 have L0: "L0 = save_state \<lparr>state = initialize_state example_config (steady 5),
                                      state_file = None, log_file = []\<rparr>"
    by (simp add: RateLimiter_init_def load_state_def)
  have t: "tracked (state L) ''gemini-1.5-pro''
             = Some \<lparr>minute_start = Finite 70, day_start = Finite 5, minute_requests = 1, daily_requests = 2\<rparr>"
    using c unfolding L0
    by (auto simp add: example_calls_def example_config_def initialize_state_def steady_def
        save_state_def log_request_def rollover_steps_def rollover_def advisory_def
        increment_def sub_from_float_def get_limits_def status_entry_def)
  from nn have "\<forall>model w. tracked (state L) model = Some w \<longrightarrow>
               0 \<le> minute_requests w \<and> 0 \<le> daily_requests w"
    by blast
  with h1 h2 c t show ?thesis by blast
qed




end
